theory Spec2Isabelle
  imports Main
begin

section \<open>Data model of \<open>TicTacToe.tsx\<close>\<close>

text \<open>
  The component \<open>TicTacToe\<close> and the function \<open>calculateWinner\<close> of
  \<open>components/TicTacToe.tsx\<close>. The repository holds a second copy of the file that draws
  the marks as chess pieces; its state, its handlers and its \<open>calculateWinner\<close> are the
  same text, so the model is a model of both.

  \<^verbatim>\<open>type Player = "X" | "O" | null;\<close>
  The two non-empty strings are the marks of the players; \<open>null\<close> is the empty cell.
\<close>

datatype Player = PlayerX | PlayerO | Null

text \<open>
  \<^verbatim>\<open>type WinnerResult = { winner: Player; line: number[] | null };\<close>
\<close>

record WinnerResult =
  winner :: Player
  line :: "int list option"

text \<open>
  The three \<open>useState\<close> cells of the component. The board is a JavaScript array, so it
  is a list of any length here; the component only ever creates arrays of 9 cells.
\<close>

record Session =
  board :: "Player list"
  xIsNext :: bool
  hasStarted :: bool

text \<open>
  Reading \<open>arr[i]\<close> from a JavaScript array with a number \<open>i\<close>: an index outside the
  array yields \<open>undefined\<close> (here \<open>None\<close>) and never raises.
\<close>

definition js_index :: "'a list \<Rightarrow> int \<Rightarrow> 'a option" where
  "js_index xs i = (if 0 \<le> i \<and> i < int (length xs) then Some (xs ! nat i) else None)"

text \<open>
  JavaScript truthiness of a value read from a \<open>Player[]\<close>: the strings \<open>"X"\<close> and
  \<open>"O"\<close> are truthy, \<open>null\<close> and \<open>undefined\<close> are falsy.
\<close>

fun truthy :: "Player option \<Rightarrow> bool" where
  "truthy (Some PlayerX) = True"
| "truthy (Some PlayerO) = True"
| "truthy (Some Null) = False"
| "truthy None = False"

section \<open>\<open>calculateWinner\<close>\<close>

text \<open>The constant \<open>lines\<close> of \<open>calculateWinner\<close>, in the order of the source.\<close>

definition lines :: "(int \<times> int \<times> int) list" where
  "lines =
     [(0, 1, 2), (3, 4, 5), (6, 7, 8),
      (0, 3, 6), (1, 4, 7), (2, 5, 8),
      (0, 4, 8), (2, 4, 6)]"

text \<open>
  The body of \<^verbatim>\<open>for (const [a, b, c] of lines)\<close>: the test
  \<^verbatim>\<open>squares[a] && squares[a] === squares[b] && squares[a] === squares[c]\<close>.
  Strict equality of two reads is equality of the values read, \<open>undefined\<close> included.
\<close>

definition line_matches :: "Player list \<Rightarrow> int \<times> int \<times> int \<Rightarrow> bool" where
  "line_matches squares t =
     (case t of (a, b, c) \<Rightarrow>
        truthy (js_index squares a)
        \<and> js_index squares a = js_index squares b
        \<and> js_index squares a = js_index squares c)"

text \<open>
  The loop, as recursion over the remaining triples: the first triple that passes the
  test returns at once; running off the end gives the result with both fields \<open>null\<close>.
  In the returning branch \<open>squares[a]\<close> is truthy, so it is a cell of the array.
\<close>

fun scan_lines :: "Player list \<Rightarrow> (int \<times> int \<times> int) list \<Rightarrow> WinnerResult" where
  "scan_lines squares [] = \<lparr>winner = Null, line = None\<rparr>"
| "scan_lines squares ((a, b, c) # rest) =
     (if line_matches squares (a, b, c)
      then (case js_index squares a of
              Some p \<Rightarrow> \<lparr>winner = p, line = Some [a, b, c]\<rparr>
            | None \<Rightarrow> scan_lines squares rest)
      else scan_lines squares rest)"

definition calculateWinner :: "Player list \<Rightarrow> WinnerResult" where
  "calculateWinner squares = scan_lines squares lines"

section \<open>Values derived at each render\<close>

text \<open>
  \<^verbatim>\<open>const isBoardFull = board.every((c) => c !== null);\<close>
  \<^verbatim>\<open>const isDraw = !winner && isBoardFull;\<close>
  \<^verbatim>\<open>const isGameOver = Boolean(winner) || isDraw;\<close>
  where \<open>winner\<close> is the field of \<open>calculateWinner(board)\<close>; a \<open>Player\<close> is truthy
  exactly when it is not \<open>null\<close>.
\<close>

definition isBoardFull :: "Player list \<Rightarrow> bool" where
  "isBoardFull b = list_all (\<lambda>c. c \<noteq> Null) b"

definition isDraw :: "Player list \<Rightarrow> bool" where
  "isDraw b = (\<not> (winner (calculateWinner b) \<noteq> Null) \<and> isBoardFull b)"

definition isGameOver :: "Player list \<Rightarrow> bool" where
  "isGameOver b = (winner (calculateWinner b) \<noteq> Null \<or> isDraw b)"

text \<open>
  The verdict on a board, read off the derived values in the order in which the
  component tests them (\<open>statusText\<close>: first \<open>winner\<close>, then \<open>isDraw\<close>, else the game
  goes on). A \<open>null\<close> line highlights no cell, like the empty list.
\<close>

datatype Verdict = InProgress | Win Player "int list" | Draw

definition evaluate :: "Player list \<Rightarrow> Verdict" where
  "evaluate b =
     (let r = calculateWinner b in
      if winner r \<noteq> Null
      then Win (winner r) (case line r of Some l \<Rightarrow> l | None \<Rightarrow> [])
      else if isDraw b then Draw
      else InProgress)"

section \<open>The session: \<open>resetGame\<close> and \<open>handleClick\<close>\<close>

text \<open>The initial values of the three \<open>useState\<close> cells.\<close>

definition initialSession :: Session where
  "initialSession = \<lparr>board = replicate 9 Null, xIsNext = True, hasStarted = False\<rparr>"

text \<open>
  \<^verbatim>\<open>setBoard(Array(9).fill(null)); setXIsNext(true); setHasStarted(false);\<close>
\<close>

definition resetGame :: "Session \<Rightarrow> Session" where
  "resetGame s = s\<lparr>board := replicate 9 Null, xIsNext := True, hasStarted := False\<rparr>"

text \<open>
  \<^verbatim>\<open>if (isGameOver || board[index] !== null) return;\<close>
  An index outside the array reads \<open>undefined\<close>, which is not \<open>null\<close>, so the handler
  returns. Past the guard the index is a cell of the array, and the write into the
  copy \<open>board.slice()\<close> is a list update at that position. The mark written is
  \<^verbatim>\<open>xIsNext ? "X" : "O"\<close>, the mark of the player to move.
\<close>

definition currentTurn :: "Session \<Rightarrow> Player" where
  "currentTurn s = (if xIsNext s then PlayerX else PlayerO)"

definition handleClick :: "Session \<Rightarrow> int \<Rightarrow> Session" where
  "handleClick s index =
     (if isGameOver (board s) \<or> js_index (board s) index \<noteq> Some Null then s
      else s\<lparr>board := (board s)[nat index := currentTurn s],
             xIsNext := \<not> xIsNext s,
             hasStarted := (if \<not> hasStarted s then True else hasStarted s)\<rparr>)"

text \<open>
  The status of a session is not stored: it is derived from the board at each render.
\<close>

datatype Status = Playing | Won Player "int list" | Drawn

definition status :: "Session \<Rightarrow> Status" where
  "status s =
     (let r = calculateWinner (board s) in
      if isGameOver (board s)
      then (if winner r \<noteq> Null
            then Won (winner r) (case line r of Some l \<Rightarrow> l | None \<Rightarrow> [])
            else Drawn)
      else Playing)"

text \<open>The two events the component reacts to, and a run of events from the initial state.\<close>

datatype Event = Click int | NewGame

fun step :: "Session \<Rightarrow> Event \<Rightarrow> Session" where
  "step s (Click i) = handleClick s i"
| "step s NewGame = resetGame s"

definition run :: "Event list \<Rightarrow> Session" where
  "run es = foldl step initialSession es"

section \<open>\<open>calculateWinner\<close> with its argument array threaded through\<close>

text \<open>
  A second reading of \<open>calculateWinner\<close>, for the question of what the function does
  to its argument: every operation on the array takes the array and returns it beside
  its result, so a write would show in the array returned. The function body performs
  reads only; they are listed in the order in which the short-circuit test of the
  source evaluates them.
\<close>

type_synonym 'a array_op = "Player list \<Rightarrow> 'a \<times> Player list"

definition read_cell :: "int \<Rightarrow> Player option array_op" where
  "read_cell i squares = (js_index squares i, squares)"

fun scan_lines_st :: "(int \<times> int \<times> int) list \<Rightarrow> WinnerResult array_op" where
  "scan_lines_st [] squares = (\<lparr>winner = Null, line = None\<rparr>, squares)"
| "scan_lines_st ((a, b, c) # rest) squares =
     (case read_cell a squares of (v1, h1) \<Rightarrow>
        if \<not> truthy v1 then scan_lines_st rest h1 else
      case read_cell a h1 of (v2, h2) \<Rightarrow>
      case read_cell b h2 of (v3, h3) \<Rightarrow>
        if v2 \<noteq> v3 then scan_lines_st rest h3 else
      case read_cell a h3 of (v4, h4) \<Rightarrow>
      case read_cell c h4 of (v5, h5) \<Rightarrow>
        if v4 \<noteq> v5 then scan_lines_st rest h5 else
      case read_cell a h5 of (v6, h6) \<Rightarrow>
        (case v6 of
           Some p \<Rightarrow> (\<lparr>winner = p, line = Some [a, b, c]\<rparr>, h6)
         | None \<Rightarrow> scan_lines_st rest h6))"

definition calculateWinner_st :: "WinnerResult array_op" where
  "calculateWinner_st squares = scan_lines_st lines squares"

section \<open>The Win Evaluator as the specification words it\<close>

text \<open>
  The specification's evaluator, stated on its own terms for comparison with the code:
  the 8 triples in the specified order, the first of them whose three cells hold one
  non-empty value, and otherwise \<open>Draw\<close> on a full board and \<open>InProgress\<close> on any other.
\<close>

definition spec_triples :: "(nat \<times> nat \<times> nat) list" where
  "spec_triples =
     [(0, 1, 2), (3, 4, 5), (6, 7, 8),
      (0, 3, 6), (1, 4, 7), (2, 5, 8),
      (0, 4, 8), (2, 4, 6)]"

definition spec_same_mark :: "Player list \<Rightarrow> nat \<times> nat \<times> nat \<Rightarrow> bool" where
  "spec_same_mark b t =
     (case t of (i, j, k) \<Rightarrow> b ! i \<noteq> Null \<and> b ! j = b ! i \<and> b ! k = b ! i)"

definition spec_evaluate :: "Player list \<Rightarrow> Verdict" where
  "spec_evaluate b =
     (case find (spec_same_mark b) spec_triples of
        Some (i, j, k) \<Rightarrow> Win (b ! i) [int i, int j, int k]
      | None \<Rightarrow> if list_all (\<lambda>c. c \<noteq> Null) b then Draw else InProgress)"

text \<open>Auxiliary notions for the proofs.\<close>

definition int_triple :: "nat \<times> nat \<times> nat \<Rightarrow> int \<times> int \<times> int" where
  "int_triple t = (case t of (i, j, k) \<Rightarrow> (int i, int j, int k))"

definition in_range :: "Player list \<Rightarrow> nat \<times> nat \<times> nat \<Rightarrow> bool" where
  "in_range b t = (case t of (i, j, k) \<Rightarrow> i < length b \<and> j < length b \<and> k < length b)"

definition line_indices :: "int \<times> int \<times> int \<Rightarrow> int list" where
  "line_indices t = (case t of (a, b, c) \<Rightarrow> [a, b, c])"

section \<open>Notions for the invariant of the session\<close>

text \<open>A triple all of whose cells hold the value \<open>p\<close>, and a board with such a triple.\<close>

definition holds_line :: "Player list \<Rightarrow> Player \<Rightarrow> int \<times> int \<times> int \<Rightarrow> bool" where
  "holds_line b p t =
     (case t of (x, y, z) \<Rightarrow>
        js_index b x = Some p \<and> js_index b y = Some p \<and> js_index b z = Some p)"

definition has_line :: "Player list \<Rightarrow> Player \<Rightarrow> bool" where
  "has_line b p = list_ex (holds_line b p) lines"

text \<open>The mark of the player who is not to move.\<close>

definition lastMover :: "Session \<Rightarrow> Player" where
  "lastMover s = (if xIsNext s then PlayerO else PlayerX)"

definition turn_parity :: "Session \<Rightarrow> bool" where
  "turn_parity s =
     (if xIsNext s
      then count_list (board s) PlayerX = count_list (board s) PlayerO
      else count_list (board s) PlayerX = count_list (board s) PlayerO + 1)"

definition lines_of_last_mover :: "Session \<Rightarrow> bool" where
  "lines_of_last_mover s =
     list_all (\<lambda>t. (holds_line (board s) PlayerX t \<longrightarrow> lastMover s = PlayerX)
                 \<and> (holds_line (board s) PlayerO t \<longrightarrow> lastMover s = PlayerO)) lines"

definition session_inv :: "Session \<Rightarrow> bool" where
  "session_inv s \<longleftrightarrow> length (board s) = 9 \<and> turn_parity s \<and> lines_of_last_mover s"

section \<open>Array reads and the line test\<close>

lemma truthy_iff: "truthy v \<longleftrightarrow> (\<exists>p. v = Some p \<and> p \<noteq> Null)"
  by (cases v rule: truthy.cases) auto

lemma js_index_nat: "n < length xs \<Longrightarrow> js_index xs (int n) = Some (xs ! n)"
  by (simp add: js_index_def)

lemma js_index_Some:
  "js_index xs i = Some v \<longleftrightarrow> 0 \<le> i \<and> i < int (length xs) \<and> xs ! nat i = v"
  by (auto simp: js_index_def)

lemma line_matches_cells:
  "line_matches sq (a, b, c) \<longleftrightarrow>
     (\<exists>p. p \<noteq> Null \<and> js_index sq a = Some p \<and> js_index sq b = Some p \<and> js_index sq c = Some p)"
  by (auto simp: line_matches_def truthy_iff)

lemma line_matches_int_triple:
  "i < length b \<Longrightarrow> j < length b \<Longrightarrow> k < length b \<Longrightarrow>
   line_matches b (int_triple (i, j, k)) = spec_same_mark b (i, j, k)"
  by (auto simp: line_matches_cells int_triple_def spec_same_mark_def js_index_nat)

lemma lines_spec_triples: "lines = map int_triple spec_triples"
  by (simp add: lines_def spec_triples_def int_triple_def)

lemma spec_triples_in_range: "length b = 9 \<Longrightarrow> list_all (in_range b) spec_triples"
  by (simp add: spec_triples_def in_range_def)

section \<open>The loop of \<open>calculateWinner\<close> finds the first matching triple\<close>

lemma scan_lines_find:
  "list_all (in_range b) ts \<Longrightarrow>
   scan_lines b (map int_triple ts) =
     (case find (spec_same_mark b) ts of
        Some (i, j, k) \<Rightarrow> \<lparr>winner = b ! i, line = Some [int i, int j, int k]\<rparr>
      | None \<Rightarrow> \<lparr>winner = Null, line = None\<rparr>)"
proof (induction ts)
  case Nil
  then show ?case by simp
next
  case (Cons t ts)
  obtain i j k where t: "t = (i, j, k)" by (cases t) auto
  from Cons.prems have rest: "list_all (in_range b) ts"
    by simp
  from Cons.prems have "in_range b (i, j, k)"
    by (simp add: t)
  then have r: "i < length b" "j < length b" "k < length b"
    by (simp_all add: in_range_def)
  have m: "line_matches b (int i, int j, int k) = spec_same_mark b (i, j, k)"
    using line_matches_int_triple [OF r] by (simp add: int_triple_def)
  show ?case
    using Cons.IH [OF rest] r
    by (simp add: t int_triple_def m js_index_nat)
qed

lemma find_same_mark_nonnull:
  "find (spec_same_mark b) ts = Some (i, j, k) \<Longrightarrow> b ! i \<noteq> Null"
  by (auto simp: find_Some_iff spec_same_mark_def)

lemma calculateWinner_find:
  "length b = 9 \<Longrightarrow>
   calculateWinner b =
     (case find (spec_same_mark b) spec_triples of
        Some (i, j, k) \<Rightarrow> \<lparr>winner = b ! i, line = Some [int i, int j, int k]\<rparr>
      | None \<Rightarrow> \<lparr>winner = Null, line = None\<rparr>)"
  unfolding calculateWinner_def lines_spec_triples
  by (rule scan_lines_find) (rule spec_triples_in_range)

text \<open>
  Claim C1. On every board of 9 cells the verdict the code derives (\<open>calculateWinner\<close>
  together with \<open>isDraw\<close>) is the verdict of the specification's evaluator: \<open>Win\<close> with
  the value and the indices of the first of the 8 triples, in the fixed order, whose
  three cells hold the same non-empty value; with no such triple, \<open>Draw\<close> when every
  cell is non-empty and \<open>InProgress\<close> otherwise.
\<close>

theorem evaluate_refines_spec:
  assumes "length b = 9"
  shows "evaluate b = spec_evaluate b"
proof (cases "find (spec_same_mark b) spec_triples")
  case None
  then show ?thesis
    using assms
    by (simp add: evaluate_def spec_evaluate_def calculateWinner_find isDraw_def isBoardFull_def)
next
  case (Some t)
  obtain i j k where t: "t = (i, j, k)" by (cases t) auto
  from Some have "b ! i \<noteq> Null" unfolding t by (rule find_same_mark_nonnull)
  then show ?thesis
    using assms Some
    by (simp add: evaluate_def spec_evaluate_def calculateWinner_find t)
qed

text \<open>
  The theorem at a board with two complete rows: the top row, first in the order, is
  the one reported.
\<close>

theorem evaluate_refines_spec_witness:
  "length [PlayerO, PlayerO, PlayerO, PlayerX, PlayerX, PlayerX, PlayerO, Null, Null] = 9
   \<and> evaluate [PlayerO, PlayerO, PlayerO, PlayerX, PlayerX, PlayerX, PlayerO, Null, Null]
       = spec_evaluate [PlayerO, PlayerO, PlayerO, PlayerX, PlayerX, PlayerX, PlayerO, Null, Null]
   \<and> spec_evaluate [PlayerO, PlayerO, PlayerO, PlayerX, PlayerX, PlayerX, PlayerO, Null, Null]
       = Win PlayerO [0, 1, 2]"
  using evaluate_refines_spec
    [of "[PlayerO, PlayerO, PlayerO, PlayerX, PlayerX, PlayerX, PlayerO, Null, Null]"]
  by (simp add: spec_evaluate_def spec_triples_def spec_same_mark_def)

section \<open>Legal and rejected moves\<close>

lemma status_evaluate:
  "status s =
     (case evaluate (board s) of Win p l \<Rightarrow> Won p l | Draw \<Rightarrow> Drawn | InProgress \<Rightarrow> Playing)"
  by (simp add: status_def evaluate_def isGameOver_def Let_def)

lemma status_Playing_iff: "status s = Playing \<longleftrightarrow> \<not> isGameOver (board s)"
  by (simp add: status_def Let_def)

lemma js_index_in_range:
  "0 \<le> i \<Longrightarrow> i < int (length xs) \<Longrightarrow> js_index xs i = Some (xs ! nat i)"
  by (simp add: js_index_def)

lemma handleClick_game_over: "isGameOver (board s) \<Longrightarrow> handleClick s i = s"
  by (simp add: handleClick_def)

lemma resetGame_eq_initial: "resetGame s = initialSession"
  by (simp add: resetGame_def initialSession_def)

lemma status_initial: "status initialSession = Playing"
  by code_simp

lemma board_initial:
  "board initialSession = [Null, Null, Null, Null, Null, Null, Null, Null, Null]"
  by code_simp

text \<open>
  Claim C2. In a session with a board of 9 cells whose status is in progress, a click
  on an index in [0,8] whose cell is empty writes the mark of the player to move into
  that cell and leaves every other cell as it was, passes the turn to the other mark,
  sets \<open>hasStarted\<close>, and the status of the new session is the verdict of the evaluator
  on the new board: won with the same mark and line, drawn, or still in progress.
\<close>

theorem handleClick_legal:
  assumes len: "length (board s) = 9"
    and playing: "status s = Playing"
    and idx: "0 \<le> index" "index \<le> 8"
    and empty: "board s ! nat index = Null"
  shows "board (handleClick s index) = (board s)[nat index := currentTurn s]
       \<and> board (handleClick s index) ! nat index = currentTurn s
       \<and> (\<forall>j. j \<noteq> nat index \<longrightarrow> board (handleClick s index) ! j = board s ! j)
       \<and> length (board (handleClick s index)) = 9
       \<and> xIsNext (handleClick s index) = (\<not> xIsNext s)
       \<and> currentTurn (handleClick s index) \<noteq> currentTurn s
       \<and> hasStarted (handleClick s index)
       \<and> status (handleClick s index) =
           (case evaluate (board (handleClick s index)) of
              Win p l \<Rightarrow> Won p l | Draw \<Rightarrow> Drawn | InProgress \<Rightarrow> Playing)"
proof -
  from idx len have rd: "js_index (board s) index = Some (board s ! nat index)"
    by (simp add: js_index_in_range)
  from playing have go: "\<not> isGameOver (board s)"
    by (simp add: status_Playing_iff)
  have hc: "handleClick s index =
      s\<lparr>board := (board s)[nat index := currentTurn s],
        xIsNext := \<not> xIsNext s,
        hasStarted := (if \<not> hasStarted s then True else hasStarted s)\<rparr>"
    using rd go empty by (simp add: handleClick_def)
  from idx len have inr: "nat index < length (board s)"
    by simp
  show ?thesis
    unfolding status_evaluate
    using inr len by (simp add: hc currentTurn_def)
qed

text \<open>
  The theorem at the move that completes the top row: after the clicks 0, 3, 1, 4 the
  game is in progress and cell 2 is empty; the click on 2 wins.
\<close>

theorem handleClick_legal_witness:
  "length (board (run (map Click [0, 3, 1, 4]))) = 9
   \<and> status (run (map Click [0, 3, 1, 4])) = Playing
   \<and> (0::int) \<le> 2 \<and> (2::int) \<le> 8
   \<and> board (run (map Click [0, 3, 1, 4])) ! nat 2 = Null
   \<and> xIsNext (handleClick (run (map Click [0, 3, 1, 4])) 2)
       = (\<not> xIsNext (run (map Click [0, 3, 1, 4])))
   \<and> hasStarted (handleClick (run (map Click [0, 3, 1, 4])) 2)
   \<and> status (handleClick (run (map Click [0, 3, 1, 4])) 2) = Won PlayerX [0, 1, 2]"
proof -
  have h1: "length (board (run (map Click [0, 3, 1, 4]))) = 9"
    by code_simp
  have h2: "status (run (map Click [0, 3, 1, 4])) = Playing"
    by code_simp
  have h3: "board (run (map Click [0, 3, 1, 4])) ! nat 2 = Null"
    by code_simp
  have v: "evaluate (board (handleClick (run (map Click [0, 3, 1, 4])) 2)) = Win PlayerX [0, 1, 2]"
    by code_simp
  show ?thesis
    using handleClick_legal [OF h1 h2 _ _ h3] h1 h2 h3 v by simp
qed

text \<open>
  Claim C3. In a session with a board of 9 cells, a click is ignored when the status is
  terminal (won or drawn), when the index is outside [0,8], or when the cell is not
  empty: the session after the click is the session before it, so board, turn,
  \<open>hasStarted\<close> and the derived status are the same. \<open>handleClick\<close> has no failing
  branch: the read of a cell outside the array yields \<open>undefined\<close>.
\<close>

theorem handleClick_rejects:
  assumes len: "length (board s) = 9"
    and bad: "status s \<noteq> Playing \<or> index < 0 \<or> 8 < index \<or> board s ! nat index \<noteq> Null"
  shows "handleClick s index = s \<and> status (handleClick s index) = status s"
proof (cases "isGameOver (board s)")
  case True
  then show ?thesis by (simp add: handleClick_def)
next
  case False
  with bad have "index < 0 \<or> 8 < index \<or> board s ! nat index \<noteq> Null"
    by (simp add: status_Playing_iff)
  then have "js_index (board s) index \<noteq> Some Null"
    using len by (auto simp: js_index_def)
  then show ?thesis by (simp add: handleClick_def)
qed

text \<open>
  The theorem at the indices 9 and -1 on the initial board, and at the second click on
  cell 0.
\<close>

theorem handleClick_rejects_witness:
  "length (board initialSession) = 9
   \<and> (8::int) < 9
   \<and> handleClick initialSession 9 = initialSession
   \<and> (-1::int) < 0
   \<and> handleClick initialSession (-1) = initialSession
   \<and> length (board (handleClick initialSession 0)) = 9
   \<and> board (handleClick initialSession 0) ! nat 0 \<noteq> Null
   \<and> handleClick (handleClick initialSession 0) 0 = handleClick initialSession 0"
proof -
  have h1: "length (board initialSession) = 9"
    by code_simp
  have h2: "length (board (handleClick initialSession 0)) = 9"
    by code_simp
  have h3: "board (handleClick initialSession 0) ! nat 0 \<noteq> Null"
    by code_simp
  show ?thesis
    using handleClick_rejects [OF h1, of 9] handleClick_rejects [OF h1, of "-1"]
      handleClick_rejects [OF h2, of 0] h1 h2 h3
    by simp
qed

text \<open>
  Claim C4. From every session \<open>resetGame\<close> yields the initial session: all nine cells
  empty, X to move, \<open>hasStarted\<close> false, and the derived status in progress.
  \<open>resetGame\<close> has no failing branch.
\<close>

theorem resetGame_initial:
  "resetGame s = initialSession
   \<and> board (resetGame s) = [Null, Null, Null, Null, Null, Null, Null, Null, Null]
   \<and> xIsNext (resetGame s)
   \<and> currentTurn (resetGame s) = PlayerX
   \<and> \<not> hasStarted (resetGame s)
   \<and> status (resetGame s) = Playing"
proof -
  have "xIsNext initialSession" "\<not> hasStarted initialSession"
    by (simp_all add: initialSession_def)
  then show ?thesis
    unfolding resetGame_eq_initial
    using status_initial board_initial by (simp add: currentTurn_def)
qed

text \<open>
  Claim C5. A session whose status is won or drawn is left as it is by every sequence
  of clicks: the session after the clicks is the session before them, so no cell changes
  and the status stays terminal.
\<close>

theorem terminal_absorbing:
  assumes "status s \<noteq> Playing"
  shows "foldl handleClick s indices = s
       \<and> board (foldl handleClick s indices) = board s
       \<and> status (foldl handleClick s indices) \<noteq> Playing"
proof -
  from assms have "foldl handleClick s indices = s"
    by (induction indices) (simp_all add: status_Playing_iff handleClick_game_over)
  with assms show ?thesis by simp
qed

text \<open>The theorem at the session won by the top row, clicked on its empty cells.\<close>

theorem terminal_absorbing_witness:
  "status (run (map Click [0, 3, 1, 4, 2])) \<noteq> Playing
   \<and> foldl handleClick (run (map Click [0, 3, 1, 4, 2])) [5, 6, 7, 8]
       = run (map Click [0, 3, 1, 4, 2])"
proof -
  have h: "status (run (map Click [0, 3, 1, 4, 2])) \<noteq> Playing"
    by code_simp
  show ?thesis
    using terminal_absorbing [OF h, of "[5, 6, 7, 8]"] h by simp
qed

section \<open>Two games\<close>

text \<open>
  Claim C6. From the initial session the clicks on 0, 3, 1, 4, 2 place X, O, X, O, X;
  after the fifth the verdict is a win of X on the triple [0,1,2] and the status is won.
  After the fourth the game is still in progress.
\<close>

theorem top_row_game:
  "board (run (map Click [0, 3, 1, 4, 2]))
     = [PlayerX, PlayerX, PlayerX, PlayerO, PlayerO, Null, Null, Null, Null]
   \<and> evaluate (board (run (map Click [0, 3, 1, 4, 2]))) = Win PlayerX [0, 1, 2]
   \<and> status (run (map Click [0, 3, 1, 4, 2])) = Won PlayerX [0, 1, 2]
   \<and> status (run (map Click [0, 3, 1, 4])) = Playing"
proof -
  have "board (run (map Click [0, 3, 1, 4, 2]))
     = [PlayerX, PlayerX, PlayerX, PlayerO, PlayerO, Null, Null, Null, Null]"
    by code_simp
  moreover have "evaluate (board (run (map Click [0, 3, 1, 4, 2]))) = Win PlayerX [0, 1, 2]"
    by code_simp
  moreover have "status (run (map Click [0, 3, 1, 4, 2])) = Won PlayerX [0, 1, 2]"
    by code_simp
  moreover have "status (run (map Click [0, 3, 1, 4])) = Playing"
    by code_simp
  ultimately show ?thesis by simp
qed

text \<open>
  Claim C7, as stated, fails: after the clicks 0, 1, 2, 4, 3, 5, 6, 8, 7 the board is
  not full, \<open>calculateWinner\<close> reports a winner, and the status is not drawn.
\<close>

theorem draw_sequence_counterexample:
  "\<not> (isBoardFull (board (run (map Click [0, 1, 2, 4, 3, 5, 6, 8, 7])))
      \<and> winner (calculateWinner (board (run (map Click [0, 1, 2, 4, 3, 5, 6, 8, 7])))) = Null
      \<and> status (run (map Click [0, 1, 2, 4, 3, 5, 6, 8, 7])) = Drawn)"
proof -
  have "status (run (map Click [0, 1, 2, 4, 3, 5, 6, 8, 7])) = Won PlayerX [0, 3, 6]"
    by code_simp
  then show ?thesis by simp
qed

text \<open>
  Claim C7, amended. From the initial session, of the clicks 0, 1, 2, 4, 3, 5, 6, 8, 7
  the first six leave the game in progress; the seventh, on cell 6, completes the
  triple [0,3,6] for X, so the status is won by X on [0,3,6]; the clicks on 8 and 7
  are ignored, and at the end cells 7 and 8 are empty.
\<close>

theorem draw_sequence_game:
  "map (\<lambda>n. status (run (map Click (take n [0, 1, 2, 4, 3, 5, 6, 8, 7])))) [0, 1, 2, 3, 4, 5, 6]
     = [Playing, Playing, Playing, Playing, Playing, Playing, Playing]
   \<and> status (run (map Click [0, 1, 2, 4, 3, 5, 6])) = Won PlayerX [0, 3, 6]
   \<and> run (map Click [0, 1, 2, 4, 3, 5, 6, 8, 7]) = run (map Click [0, 1, 2, 4, 3, 5, 6])
   \<and> board (run (map Click [0, 1, 2, 4, 3, 5, 6, 8, 7]))
       = [PlayerX, PlayerO, PlayerX, PlayerX, PlayerO, PlayerO, PlayerX, Null, Null]
   \<and> status (run (map Click [0, 1, 2, 4, 3, 5, 6, 8, 7])) = Won PlayerX [0, 3, 6]"
proof -
  have "map (\<lambda>n. status (run (map Click (take n [0, 1, 2, 4, 3, 5, 6, 8, 7])))) [0, 1, 2, 3, 4, 5, 6]
     = [Playing, Playing, Playing, Playing, Playing, Playing, Playing]"
    by code_simp
  moreover have "status (run (map Click [0, 1, 2, 4, 3, 5, 6])) = Won PlayerX [0, 3, 6]"
    by code_simp
  moreover have "run (map Click [0, 1, 2, 4, 3, 5, 6, 8, 7]) = run (map Click [0, 1, 2, 4, 3, 5, 6])"
    by code_simp
  moreover have "board (run (map Click [0, 1, 2, 4, 3, 5, 6, 8, 7]))
       = [PlayerX, PlayerO, PlayerX, PlayerX, PlayerO, PlayerO, PlayerX, Null, Null]"
    by code_simp
  moreover have "status (run (map Click [0, 1, 2, 4, 3, 5, 6, 8, 7])) = Won PlayerX [0, 3, 6]"
    by code_simp
  ultimately show ?thesis by simp
qed

section \<open>\<open>calculateWinner\<close> reads its argument and nothing else\<close>

lemma scan_lines_st_eq: "scan_lines_st ts squares = (scan_lines squares ts, squares)"
proof (induction ts)
  case Nil
  show ?case by simp
next
  case (Cons t ts)
  obtain a b c where t: "t = (a, b, c)" by (cases t) auto
  show ?case
    by (simp add: t Cons.IH read_cell_def line_matches_def split: option.splits)
qed

text \<open>
  Claim C8. With the argument array threaded through every read, \<open>calculateWinner\<close>
  returns the array as it received it; its result is a function of the contents of the
  array alone, so that calls on equal boards give equal results, and a second call on
  the array left by the first gives the result of the first.
\<close>

theorem calculateWinner_pure:
  "snd (calculateWinner_st squares) = squares
   \<and> fst (calculateWinner_st squares) = calculateWinner squares
   \<and> fst (calculateWinner_st (snd (calculateWinner_st squares)))
       = fst (calculateWinner_st squares)
   \<and> (squares' = squares \<longrightarrow>
        fst (calculateWinner_st squares') = fst (calculateWinner_st squares))"
  by (simp add: calculateWinner_st_def calculateWinner_def scan_lines_st_eq)

text \<open>The theorem at a board won on the middle row.\<close>

theorem calculateWinner_pure_witness:
  "snd (calculateWinner_st [PlayerO, PlayerO, Null, PlayerX, PlayerX, PlayerX, Null, Null, Null])
     = [PlayerO, PlayerO, Null, PlayerX, PlayerX, PlayerX, Null, Null, Null]
   \<and> fst (calculateWinner_st [PlayerO, PlayerO, Null, PlayerX, PlayerX, PlayerX, Null, Null, Null])
     = \<lparr>winner = PlayerX, line = Some [3, 4, 5]\<rparr>"
proof -
  have "calculateWinner [PlayerO, PlayerO, Null, PlayerX, PlayerX, PlayerX, Null, Null, Null]
      = \<lparr>winner = PlayerX, line = Some [3, 4, 5]\<rparr>"
    by code_simp
  then show ?thesis
    using calculateWinner_pure
      [of "[PlayerO, PlayerO, Null, PlayerX, PlayerX, PlayerX, Null, Null, Null]"
          "[PlayerO, PlayerO, Null, PlayerX, PlayerX, PlayerX, Null, Null, Null]"]
    by simp
qed

section \<open>The two fields of the result of \<open>calculateWinner\<close>\<close>

lemma scan_lines_cases:
  "scan_lines sq ts = \<lparr>winner = Null, line = None\<rparr>
   \<or> (\<exists>a b c p. (a, b, c) \<in> set ts \<and> p \<noteq> Null
        \<and> js_index sq a = Some p \<and> js_index sq b = Some p \<and> js_index sq c = Some p
        \<and> scan_lines sq ts = \<lparr>winner = p, line = Some [a, b, c]\<rparr>)"
proof (induction ts)
  case Nil
  show ?case by simp
next
  case (Cons t ts)
  obtain a b c where t: "t = (a, b, c)" by (cases t) auto
  show ?case
  proof (cases "line_matches sq (a, b, c)")
    case True
    then obtain p where "p \<noteq> Null" "js_index sq a = Some p"
      "js_index sq b = Some p" "js_index sq c = Some p"
      by (auto simp: line_matches_cells)
    with True show ?thesis
      by (auto simp: t)
  next
    case False
    with Cons.IH show ?thesis
      by (auto simp: t)
  qed
qed

lemma line_indices_mem: "t \<in> set ts \<Longrightarrow> line_indices t \<in> set (map line_indices ts)"
  by simp

text \<open>
  Claim C9. On every board (of 9 cells or of any other length) the fields \<open>winner\<close> and
  \<open>line\<close> of the result of \<open>calculateWinner\<close> are \<open>null\<close> together or not at all; a
  line that is not \<open>null\<close> is one of the 8 triples, and each of its three indices is a
  cell of the board that holds the winner's mark.
\<close>

theorem winner_line_together:
  "(winner (calculateWinner b) \<noteq> Null \<longleftrightarrow> line (calculateWinner b) \<noteq> None)
   \<and> (\<forall>l. line (calculateWinner b) = Some l \<longrightarrow>
         l \<in> set (map line_indices lines)
         \<and> (\<forall>i\<in>set l. js_index b i = Some (winner (calculateWinner b))))"
proof -
  consider (none) "calculateWinner b = \<lparr>winner = Null, line = None\<rparr>"
    | (some) x y z p where "(x, y, z) \<in> set lines" "p \<noteq> Null"
        "js_index b x = Some p" "js_index b y = Some p" "js_index b z = Some p"
        "calculateWinner b = \<lparr>winner = p, line = Some [x, y, z]\<rparr>"
    using scan_lines_cases [of b lines] unfolding calculateWinner_def by blast
  then show ?thesis
  proof cases
    case none
    then show ?thesis by simp
  next
    case some
    from some(1) have "line_indices (x, y, z) \<in> set (map line_indices lines)"
      by (rule line_indices_mem)
    then have "[x, y, z] \<in> set (map line_indices lines)"
      by (simp add: line_indices_def)
    with some show ?thesis by simp
  qed
qed

text \<open>The theorem at a board won by O on the main diagonal.\<close>

theorem winner_line_together_witness:
  "winner (calculateWinner
     [PlayerO, PlayerX, Null, PlayerX, PlayerO, Null, PlayerX, Null, PlayerO]) \<noteq> Null
   \<and> line (calculateWinner
     [PlayerO, PlayerX, Null, PlayerX, PlayerO, Null, PlayerX, Null, PlayerO]) = Some [0, 4, 8]
   \<and> [0, 4, 8] \<in> set (map line_indices lines)
   \<and> js_index [PlayerO, PlayerX, Null, PlayerX, PlayerO, Null, PlayerX, Null, PlayerO] 4
       = Some (winner (calculateWinner
           [PlayerO, PlayerX, Null, PlayerX, PlayerO, Null, PlayerX, Null, PlayerO]))"
proof -
  have l: "line (calculateWinner
      [PlayerO, PlayerX, Null, PlayerX, PlayerO, Null, PlayerX, Null, PlayerO]) = Some [0, 4, 8]"
    by code_simp
  show ?thesis
    using winner_line_together
      [of "[PlayerO, PlayerX, Null, PlayerX, PlayerO, Null, PlayerX, Null, PlayerO]"] l
    by simp
qed

section \<open>The invariant of the session\<close>

lemma count_list_update:
  "i < length xs \<Longrightarrow> xs ! i \<noteq> y \<Longrightarrow>
   count_list (xs[i := v]) y = count_list xs y + (if v = y then 1 else 0)"
proof (induction xs arbitrary: i)
  case Nil
  then show ?case by simp
next
  case (Cons x xs)
  then show ?case by (cases i) auto
qed

lemma js_index_update:
  "js_index (xs[n := v]) i = (if i = int n \<and> n < length xs then Some v else js_index xs i)"
  by (auto simp: js_index_def nth_list_update)

lemma line_matches_holds:
  "line_matches b t \<longleftrightarrow> holds_line b PlayerX t \<or> holds_line b PlayerO t"
proof -
  obtain x y z where t: "t = (x, y, z)" by (cases t) auto
  have "p \<noteq> Null \<longleftrightarrow> p = PlayerX \<or> p = PlayerO" for p
    by (cases p) auto
  then show ?thesis
    unfolding t line_matches_cells holds_line_def by auto
qed

lemma scan_lines_no_winner:
  "winner (scan_lines b ts) = Null \<Longrightarrow> t \<in> set ts \<Longrightarrow> \<not> line_matches b t"
proof (induction ts)
  case Nil
  then show ?case by simp
next
  case (Cons u us)
  obtain x y z where u: "u = (x, y, z)" by (cases u) auto
  show ?case
  proof (cases "line_matches b (x, y, z)")
    case True
    then obtain p where "p \<noteq> Null" "js_index b x = Some p"
      by (auto simp: line_matches_cells)
    with True Cons.prems(1) show ?thesis by (simp add: u)
  next
    case False
    with Cons show ?thesis by (auto simp: u)
  qed
qed

lemma not_over_no_line:
  assumes "\<not> isGameOver b" and "t \<in> set lines"
  shows "\<not> holds_line b p t \<or> p = Null"
proof -
  from assms(1) have "winner (scan_lines b lines) = Null"
    by (simp add: isGameOver_def calculateWinner_def)
  then have "\<not> line_matches b t"
    using assms(2) by (rule scan_lines_no_winner)
  then show ?thesis
    by (cases p) (auto simp: line_matches_holds)
qed

lemma holds_line_update:
  assumes new: "holds_line (b[n := m]) p t" and old: "\<not> holds_line b p t"
  shows "p = m"
proof -
  obtain x y z where t: "t = (x, y, z)" by (cases t) auto
  from new old show ?thesis
    unfolding t holds_line_def js_index_update
    by (auto split: if_splits)
qed

lemma session_inv_initial: "session_inv initialSession"
  by code_simp

lemma session_inv_resetGame: "session_inv (resetGame s)"
  by (simp add: resetGame_eq_initial session_inv_initial)

text \<open>
  An accepted click starts from a board without a complete triple, so every complete
  triple of the new board runs through the cell just written and holds the mark of the
  player who wrote it.
\<close>

lemma session_inv_handleClick:
  assumes inv: "session_inv s"
  shows "session_inv (handleClick s i)"
proof (cases "isGameOver (board s) \<or> js_index (board s) i \<noteq> Some Null")
  case True
  then have "handleClick s i = s" by (simp add: handleClick_def)
  with inv show ?thesis by simp
next
  case False
  define m where "m = currentTurn s"
  define s' where "s' = handleClick s i"
  from False have go: "\<not> isGameOver (board s)" and rd: "js_index (board s) i = Some Null"
    by simp_all
  from rd have i: "nat i < length (board s)" and cell: "board s ! nat i = Null"
    by (auto simp: js_index_Some)
  have b': "board s' = (board s)[nat i := m]" and x': "xIsNext s' = (\<not> xIsNext s)"
    using False by (simp_all add: s'_def handleClick_def m_def)
  have lm: "lastMover s' = m"
    by (simp add: lastMover_def x' m_def currentTurn_def)
  from inv have len: "length (board s) = 9" and par: "turn_parity s"
    by (simp_all add: session_inv_def)
  have len': "length (board s') = 9"
    by (simp add: b' len)
  have cX: "count_list (board s') PlayerX
      = count_list (board s) PlayerX + (if m = PlayerX then 1 else 0)"
    unfolding b' using i cell by (simp add: count_list_update)
  have cO: "count_list (board s') PlayerO
      = count_list (board s) PlayerO + (if m = PlayerO then 1 else 0)"
    unfolding b' using i cell by (simp add: count_list_update)
  have par': "turn_parity s'"
    using par unfolding turn_parity_def x' cX cO m_def currentTurn_def
    by (simp split: if_splits)
  have own: "p = m" if "t \<in> set lines" "holds_line (board s') p t" "p \<noteq> Null" for p t
  proof -
    from not_over_no_line [OF go that(1), of p] that(3) have "\<not> holds_line (board s) p t"
      by simp
    with that(2) show ?thesis
      unfolding b' by (rule holds_line_update)
  qed
  have "lines_of_last_mover s'"
    unfolding lines_of_last_mover_def list_all_iff lm
    using own by auto
  with len' par' show ?thesis
    unfolding s'_def by (simp add: session_inv_def)
qed

lemma session_inv_step: "session_inv s \<Longrightarrow> session_inv (step s e)"
  by (cases e) (simp_all add: session_inv_handleClick session_inv_resetGame)

lemma session_inv_foldl: "session_inv s \<Longrightarrow> session_inv (foldl step s es)"
  by (induction es arbitrary: s) (simp_all add: session_inv_step)

lemma session_inv_run: "session_inv (run es)"
  unfolding run_def by (rule session_inv_foldl) (rule session_inv_initial)

lemma no_two_winners:
  assumes "lines_of_last_mover s"
  shows "\<not> (has_line (board s) PlayerX \<and> has_line (board s) PlayerO)"
proof
  assume "has_line (board s) PlayerX \<and> has_line (board s) PlayerO"
  then obtain t u where t: "t \<in> set lines" "holds_line (board s) PlayerX t"
    and u: "u \<in> set lines" "holds_line (board s) PlayerO u"
    by (auto simp: has_line_def list_ex_iff)
  from assms t have "lastMover s = PlayerX"
    by (simp add: lines_of_last_mover_def list_all_iff)
  moreover from assms u have "lastMover s = PlayerO"
    by (simp add: lines_of_last_mover_def list_all_iff)
  ultimately show False by simp
qed

text \<open>
  Claim C10. In every session reached from the initial one by clicks and resets, the
  board has 9 cells and the counts of the marks follow the turn: with X to move there
  are as many X as O, with O to move there is one X more than O; and the board never
  holds a complete triple of X together with a complete triple of O.
\<close>

theorem marks_alternate_with_turn:
  "length (board (run es)) = 9
   \<and> (xIsNext (run es) \<longrightarrow>
        count_list (board (run es)) PlayerX = count_list (board (run es)) PlayerO)
   \<and> (\<not> xIsNext (run es) \<longrightarrow>
        count_list (board (run es)) PlayerX = count_list (board (run es)) PlayerO + 1)
   \<and> \<not> (has_line (board (run es)) PlayerX \<and> has_line (board (run es)) PlayerO)"
proof -
  have inv: "session_inv (run es)" by (rule session_inv_run)
  then have len: "length (board (run es)) = 9" and par: "turn_parity (run es)"
    and l: "lines_of_last_mover (run es)"
    by (simp_all add: session_inv_def)
  from par len show ?thesis
    using no_two_winners [OF l] by (simp add: turn_parity_def split: if_splits)
qed

text \<open>
  The theorem after two clicks, a reset, a click outside the board and a click on
  cell 2: O is to move, and the board holds one X and no O.
\<close>

theorem marks_alternate_with_turn_witness:
  "\<not> xIsNext (run [Click 4, Click 0, NewGame, Click 9, Click 2])
   \<and> count_list (board (run [Click 4, Click 0, NewGame, Click 9, Click 2])) PlayerO = 0
   \<and> count_list (board (run [Click 4, Click 0, NewGame, Click 9, Click 2])) PlayerX = 1
   \<and> \<not> (has_line (board (run [Click 4, Click 0, NewGame, Click 9, Click 2])) PlayerX
        \<and> has_line (board (run [Click 4, Click 0, NewGame, Click 9, Click 2])) PlayerO)"
proof -
  have h: "\<not> xIsNext (run [Click 4, Click 0, NewGame, Click 9, Click 2])"
    by code_simp
  have o: "count_list (board (run [Click 4, Click 0, NewGame, Click 9, Click 2])) PlayerO = 0"
    by code_simp
  show ?thesis
    using marks_alternate_with_turn [of "[Click 4, Click 0, NewGame, Click 9, Click 2]"] h o
    by simp
qed

end
